theory Spec2Isabelle
  imports Complex_Main
begin

section \<open>The engine of firestarter/game_engine/engine.py\<close>

text \<open>
  The class \<open>Engine\<close> is embedded as a record of its attributes with one function per
  method. A method that can raise returns \<open>error + state\<close>. Methods whose Python name
  starts with an underscore carry the prefix \<open>priv_\<close>, since an Isabelle name cannot
  start with one: \<open>priv_update\<close> is \<open>_update\<close>, while \<open>update\<close> is the hook of the
  same name.
\<close>

subsection \<open>Exceptions\<close>

datatype error =
  KeyError | TypeError | AttributeError | OSError | TomlDecodeError | ImageError | ConfigError

definition bind_result :: "error + 'a \<Rightarrow> ('a \<Rightarrow> error + 'b) \<Rightarrow> error + 'b" where
  "bind_result m f = (case m of Inl e \<Rightarrow> Inl e | Inr x \<Rightarrow> f x)"

subsection \<open>Objects the engine refers to\<close>

text \<open>
  A sprite is an object of the class \<open>Sprite\<close>, which is imported and not defined in
  engine.py. The engine reads one attribute of it, \<open>killed\<close>; whatever else a sprite
  holds is the extension of the record. Sprites are compared by identity
  (\<open>list.remove\<close> on widgets), so the registry holds references and the objects live in
  a heap.
\<close>

type_synonym sprite_ref = nat

record sprite =
  killed :: bool

type_synonym 'a heap = "sprite_ref \<Rightarrow> 'a sprite_scheme"

text \<open>
  The keyboard object handed out by \<open>Window.request_keyboard\<close>: the callbacks bound to
  its two events. The engine binds two of its own methods. \<open>bind\<close> appends a callback;
  \<open>unbind\<close> removes the first occurrence of the callback given and does nothing when
  that callback is not bound to the event (the behaviour of Kivy's event dispatcher).
\<close>

datatype callback = On_keyboard_down | On_keyboard_up

record keyboard =
  on_key_down :: "callback list"
  on_key_up :: "callback list"

definition bind_on_key_down :: "callback \<Rightarrow> keyboard \<Rightarrow> keyboard" where
  "bind_on_key_down cb kb = kb\<lparr>on_key_down := on_key_down kb @ [cb]\<rparr>"

definition bind_on_key_up :: "callback \<Rightarrow> keyboard \<Rightarrow> keyboard" where
  "bind_on_key_up cb kb = kb\<lparr>on_key_up := on_key_up kb @ [cb]\<rparr>"

definition unbind_on_key_down :: "callback \<Rightarrow> keyboard \<Rightarrow> keyboard" where
  "unbind_on_key_down cb kb = kb\<lparr>on_key_down := remove1 cb (on_key_down kb)\<rparr>"

definition unbind_on_key_up :: "callback \<Rightarrow> keyboard \<Rightarrow> keyboard" where
  "unbind_on_key_up cb kb = kb\<lparr>on_key_up := remove1 cb (on_key_up kb)\<rparr>"

text \<open>
  Calls the engine makes on its collaborators, in the order they happen. The log is
  not an attribute of the Python object: it records what the sprites, the widget tree,
  the clock and the user hook are asked to do.
\<close>

datatype tick = Tick_update | Tick_animate

datatype call =
  SpriteUpdate sprite_ref "sprite_ref list"
  | CycleAnimation sprite_ref
  | AddWidget sprite_ref
  | RemoveWidget sprite_ref
  | UserUpdate real
  | ScheduleInterval tick real

text \<open>A key code as Kivy passes it: the pair of the numeric code and the key's name.\<close>

type_synonym key_code = "int \<times> string"

subsection \<open>The state of an engine\<close>

record ('a, 'c) engine =
  keyboard :: "keyboard option"
  pressed_keys :: "string set"
  sprites :: "sprite_ref list"
  assets :: "string \<rightharpoonup> 'c"
  heap :: "'a heap"
  calls :: "call list"

definition new_calls :: "('a, 'c) engine \<Rightarrow> ('a, 'c) engine \<Rightarrow> call list" where
  "new_calls before after = drop (length (calls before)) (calls after)"

subsection \<open>Keyboard handlers\<close>

text \<open>
  \<open>_keyboard_closed\<close>: two \<open>unbind\<close> calls on the keyboard object, then the
  attribute is set to \<open>None\<close>. Both calls name the method \<open>_on_keyboard_down\<close>, as the
  source does. The keyboard object outlives the attribute, so the function returns it
  next to the engine. With no keyboard, \<open>None.unbind\<close> raises.
\<close>

definition priv_keyboard_closed ::
  "('a, 'c) engine \<Rightarrow> error + (keyboard \<times> ('a, 'c) engine)" where
  "priv_keyboard_closed self =
     (case keyboard self of
        None \<Rightarrow> Inl AttributeError
      | Some kb \<Rightarrow>
          (let kb1 = unbind_on_key_down On_keyboard_down kb;
               kb2 = unbind_on_key_up On_keyboard_down kb1
           in Inr (kb2, self\<lparr>keyboard := None\<rparr>)))"

text \<open>\<open>_on_keyboard_down\<close>: \<open>self.pressed_keys.add(key_code[1])\<close>.\<close>

definition priv_on_keyboard_down ::
  "keyboard \<Rightarrow> key_code \<Rightarrow> string \<Rightarrow> string list \<Rightarrow> ('a, 'c) engine \<Rightarrow> ('a, 'c) engine" where
  "priv_on_keyboard_down kb key_code text modifiers self =
     self\<lparr>pressed_keys := insert (snd key_code) (pressed_keys self)\<rparr>"

text \<open>
  \<open>_on_keyboard_up\<close>: \<open>self.pressed_keys.remove(key_code[1])\<close>. Python's
  \<open>set.remove\<close> raises \<open>KeyError\<close> when the element is absent.
\<close>

definition priv_on_keyboard_up ::
  "keyboard \<Rightarrow> key_code \<Rightarrow> ('a, 'c) engine \<Rightarrow> error + ('a, 'c) engine" where
  "priv_on_keyboard_up kb key_code self =
     (if snd key_code \<in> pressed_keys self
      then Inr (self\<lparr>pressed_keys := pressed_keys self - {snd key_code}\<rparr>)
      else Inl KeyError)"

subsection \<open>The sprite registry\<close>

text \<open>
  \<open>Sprite.update\<close> and \<open>Sprite.cycle_animation\<close> are methods of the imported class,
  so they are parameters: \<open>upd s peers h\<close> is the heap after sprite \<open>s\<close> ran
  \<open>update(peers)\<close> on heap \<open>h\<close>. It may change any sprite, its \<open>killed\<close> flag
  included; it reads the list it is given and does not resize it.
\<close>

type_synonym 'a sprite_update = "sprite_ref \<Rightarrow> sprite_ref list \<Rightarrow> 'a heap \<Rightarrow> 'a heap"

type_synonym 'a sprite_cycle = "sprite_ref \<Rightarrow> 'a heap \<Rightarrow> 'a heap"

text \<open>\<open>add_sprite\<close> and \<open>add_sprites\<close>.\<close>

definition add_sprite :: "sprite_ref \<Rightarrow> ('a, 'c) engine \<Rightarrow> ('a, 'c) engine" where
  "add_sprite s self = self\<lparr>sprites := sprites self @ [s], calls := calls self @ [AddWidget s]\<rparr>"

definition add_sprites :: "sprite_ref list \<Rightarrow> ('a, 'c) engine \<Rightarrow> ('a, 'c) engine" where
  "add_sprites ss self =
     self\<lparr>sprites := sprites self @ ss, calls := calls self @ map AddWidget ss\<rparr>"

text \<open>The hook \<open>update\<close>, as the class defines it: \<open>pass\<close>.\<close>

definition update :: "real \<Rightarrow> ('a, 'c) engine \<Rightarrow> ('a, 'c) engine" where
  "update dt self = self"

text \<open>
  A Python \<open>for\<close> over a list keeps an index into the live list: each round reads the
  element at the index, advances the index, and runs the body; the loop ends when the
  index reaches the current length. \<open>animate_body\<close> and \<open>update_body\<close> are the two
  loop bodies, run on the element at index \<open>i\<close>.
\<close>

definition animate_body :: "'a sprite_cycle \<Rightarrow> nat \<Rightarrow> ('a, 'c) engine \<Rightarrow> ('a, 'c) engine" where
  "animate_body cyc i self =
     (let sprite = sprites self ! i
      in self\<lparr>heap := cyc sprite (heap self), calls := calls self @ [CycleAnimation sprite]\<rparr>)"

function animate_loop :: "'a sprite_cycle \<Rightarrow> nat \<Rightarrow> ('a, 'c) engine \<Rightarrow> ('a, 'c) engine" where
  "animate_loop cyc i self =
     (if i < length (sprites self) then animate_loop cyc (Suc i) (animate_body cyc i self)
      else self)"
  by pat_completeness auto
termination
  by (relation "measure (\<lambda>(cyc, i, self). length (sprites self) - i)")
     (auto simp: animate_body_def Let_def)

definition priv_animate :: "'a sprite_cycle \<Rightarrow> real \<Rightarrow> ('a, 'c) engine \<Rightarrow> ('a, 'c) engine" where
  "priv_animate cyc dt self = animate_loop cyc 0 self"

definition update_body :: "'a sprite_update \<Rightarrow> nat \<Rightarrow> ('a, 'c) engine \<Rightarrow> ('a, 'c) engine" where
  "update_body upd i self =
     (let sprite = sprites self ! i
      in if killed (heap self sprite)
         then self\<lparr>sprites := remove1 sprite (sprites self),
                   calls := calls self @ [RemoveWidget sprite]\<rparr>
         else self\<lparr>heap := upd sprite (sprites self) (heap self),
                   calls := calls self @ [SpriteUpdate sprite (sprites self)]\<rparr>)"

function update_loop :: "'a sprite_update \<Rightarrow> nat \<Rightarrow> ('a, 'c) engine \<Rightarrow> ('a, 'c) engine" where
  "update_loop upd i self =
     (if i < length (sprites self) then update_loop upd (Suc i) (update_body upd i self)
      else self)"
  by pat_completeness auto
termination
  by (relation "measure (\<lambda>(upd, i, self). length (sprites self) - i)")
     (auto simp: update_body_def Let_def length_remove1)

text \<open>
  \<open>_update\<close>: the loop over the sprites, then \<open>self.update(dt)\<close>. The hook is a
  method a subclass overrides, so it is a parameter; \<open>update\<close> above is the default.
\<close>

definition priv_update ::
  "'a sprite_update \<Rightarrow> (real \<Rightarrow> ('a, 'c) engine \<Rightarrow> ('a, 'c) engine) \<Rightarrow> real \<Rightarrow>
     ('a, 'c) engine \<Rightarrow> ('a, 'c) engine" where
  "priv_update upd hook dt self =
     (let after_loop = update_loop upd 0 self
      in hook dt (after_loop\<lparr>calls := calls after_loop @ [UserUpdate dt]\<rparr>))"

text \<open>
  The rounds of the loop of \<open>_update\<close>, from index \<open>i\<close> on: the index and the state in
  which each round's body starts.
\<close>

function update_rounds ::
  "'a sprite_update \<Rightarrow> nat \<Rightarrow> ('a, 'c) engine \<Rightarrow> (nat \<times> ('a, 'c) engine) list" where
  "update_rounds upd i self =
     (if i < length (sprites self)
      then (i, self) # update_rounds upd (Suc i) (update_body upd i self)
      else [])"
  by pat_completeness auto
termination
  by (relation "measure (\<lambda>(upd, i, self). length (sprites self) - i)")
     (auto simp: update_body_def Let_def length_remove1)

text \<open>
  The call one round of that loop makes: \<open>remove_widget\<close> for a killed sprite,
  \<open>update\<close> with the registry of that moment otherwise.
\<close>

definition round_call :: "nat \<times> ('a, 'c) engine \<Rightarrow> call" where
  "round_call r =
     (let sprite = sprites (snd r) ! fst r
      in if killed (heap (snd r) sprite) then RemoveWidget sprite
         else SpriteUpdate sprite (sprites (snd r)))"


subsection \<open>Loading the sprite sheets\<close>

text \<open>
  What \<open>load_sprite_sheets\<close> asks of the platform: \<open>os.listdir\<close>,
  \<open>os.path.exists\<close>, \<open>CoreImage(path).texture\<close>, and \<open>open\<close> followed by
  \<open>toml.load\<close>, which yields a dictionary or raises.
\<close>

datatype toml =
  TBool bool | TInt int | TFloat real | TString string | TArray "toml list"
  | TTable "(string \<times> toml) list"

record texture =
  source :: string
  mag_filter :: string

record platform =
  listdir :: "string \<Rightarrow> error + string list"
  path_exists :: "string \<Rightarrow> bool"
  core_image :: "string \<Rightarrow> error + texture"
  toml_load :: "string \<Rightarrow> error + (string \<times> toml) list"

text \<open>
  \<open>value[key]\<close> for a string key: a dictionary raises \<open>KeyError\<close> when the key is
  absent, every other TOML value raises \<open>TypeError\<close>.
\<close>

fun getitem :: "toml \<Rightarrow> string \<Rightarrow> error + toml" where
  "getitem (TTable kvs) k = (case map_of kvs k of None \<Rightarrow> Inl KeyError | Some v \<Rightarrow> Inr v)"
| "getitem v k = Inl TypeError"

definition IMAGE_EXTENSIONS :: "string list" where
  "IMAGE_EXTENSIONS = [''png'']"

text \<open>\<open>s.rsplit(sep, 1)\<close>: split at the last separator, if there is one.\<close>

definition rsplit1 :: "char \<Rightarrow> string \<Rightarrow> string list" where
  "rsplit1 sep s =
     (if sep \<in> set s
      then [rev (tl (dropWhile (\<lambda>c. c \<noteq> sep) (rev s))), rev (takeWhile (\<lambda>c. c \<noteq> sep) (rev s))]
      else [s])"

definition sprites_path :: "string \<Rightarrow> string \<Rightarrow> string" where
  "sprites_path resource_dir name = resource_dir @ ''/sprites/'' @ name"

definition config_file_of :: "string \<Rightarrow> string \<Rightarrow> string" where
  "config_file_of resource_dir sprite_sheet =
     sprites_path resource_dir (hd (rsplit1 CHR ''.'' sprite_sheet) @ ''_config.toml'')"

definition no_config_message :: "string \<Rightarrow> string" where
  "no_config_message sprite_sheet =
     ''Engine: No configuration file found for '' @ sprite_sheet @ '', not loading it.''"

text \<open>
  \<open>SpriteConfig\<close> is imported, so its constructor is the parameter \<open>mk\<close>; it may
  raise. \<open>sheet_config\<close> is the part of the loop body after the \<open>continue\<close>: the
  texture, the \<open>animation\<close> section, its three keys in the order the call reads them,
  and the constructor.
\<close>

type_synonym 'c sprite_config =
  "string \<Rightarrow> texture \<Rightarrow> toml \<Rightarrow> toml \<Rightarrow> toml \<Rightarrow> error + 'c"

definition sheet_config ::
  "platform \<Rightarrow> 'c sprite_config \<Rightarrow> string \<Rightarrow> string \<Rightarrow> error + 'c" where
  "sheet_config os mk resource_dir sprite_sheet =
     bind_result (core_image os (sprites_path resource_dir sprite_sheet)) (\<lambda>loaded.
       let texture = loaded\<lparr>mag_filter := ''nearest''\<rparr> in
       bind_result (toml_load os (config_file_of resource_dir sprite_sheet)) (\<lambda>document.
       bind_result (getitem (TTable document) ''animation'') (\<lambda>config_dict.
       bind_result (getitem config_dict ''size'') (\<lambda>size.
       bind_result (getitem config_dict ''modes'') (\<lambda>modes.
       bind_result (getitem config_dict ''frame_count'') (\<lambda>frame_count.
         mk (sprites_path resource_dir sprite_sheet) texture size modes frame_count))))))"

text \<open>
  The loop over the image files. The second component is what was passed to
  \<open>Logger.error\<close>; it survives an exception.
\<close>

fun load_loop ::
  "platform \<Rightarrow> 'c sprite_config \<Rightarrow> string \<Rightarrow> string list \<Rightarrow> (string \<rightharpoonup> 'c) \<Rightarrow> string list \<Rightarrow>
     (error + (string \<rightharpoonup> 'c)) \<times> string list" where
  "load_loop os mk resource_dir [] catalog logged = (Inr catalog, logged)"
| "load_loop os mk resource_dir (sprite_sheet # rest) catalog logged =
     (if \<not> path_exists os (config_file_of resource_dir sprite_sheet)
      then load_loop os mk resource_dir rest catalog (logged @ [no_config_message sprite_sheet])
      else (case sheet_config os mk resource_dir sprite_sheet of
              Inl e \<Rightarrow> (Inl e, logged)
            | Inr config \<Rightarrow>
                load_loop os mk resource_dir rest
                  (catalog(hd (rsplit1 CHR ''.'' sprite_sheet) \<mapsto> config)) logged))"

definition load_sprite_sheets ::
  "platform \<Rightarrow> 'c sprite_config \<Rightarrow> string \<Rightarrow> (error + (string \<rightharpoonup> 'c)) \<times> string list" where
  "load_sprite_sheets os mk resource_dir =
     (case listdir os (resource_dir @ ''/sprites'') of
        Inl e \<Rightarrow> (Inl e, [])
      | Inr names \<Rightarrow>
          load_loop os mk resource_dir
            (filter (\<lambda>sp. last (rsplit1 CHR ''.'' sp) \<in> set IMAGE_EXTENSIONS) names)
            Map.empty [])"

text \<open>
  \<open>__init__\<close>: the keyboard handed out by the window gets the two handlers, the set
  and the list start empty, the assets are loaded, and the two ticks are scheduled. An
  exception of \<open>load_sprite_sheets\<close> leaves no engine.
\<close>

definition Engine_init ::
  "platform \<Rightarrow> 'c sprite_config \<Rightarrow> string \<Rightarrow> keyboard \<Rightarrow> 'a heap \<Rightarrow> error + ('a, 'c) engine" where
  "Engine_init os mk resource_dir window_keyboard objects =
     (let kb = bind_on_key_up On_keyboard_up (bind_on_key_down On_keyboard_down window_keyboard)
      in case fst (load_sprite_sheets os mk resource_dir) of
           Inl e \<Rightarrow> Inl e
         | Inr loaded \<Rightarrow>
             Inr \<lparr>keyboard = Some kb, pressed_keys = {}, sprites = [], assets = loaded,
                  heap = objects,
                  calls = [ScheduleInterval Tick_update (1 / 60),
                           ScheduleInterval Tick_animate (1 / 10)]\<rparr>)"

text \<open>
  A configuration file is incomplete when it does not load as TOML, has no
  \<open>animation\<close> table, or that table lacks one of the keys \<open>size\<close>, \<open>modes\<close>,
  \<open>frame_count\<close>: the cases in which one of the reads of \<open>load_sprite_sheets\<close>
  itself raises.
\<close>

fun section_incomplete :: "toml \<Rightarrow> bool" where
  "section_incomplete (TTable kvs) =
     (map_of kvs ''size'' = None \<or> map_of kvs ''modes'' = None \<or> map_of kvs ''frame_count'' = None)"
| "section_incomplete v = True"

definition config_incomplete :: "platform \<Rightarrow> string \<Rightarrow> bool" where
  "config_incomplete os config_file =
     (case toml_load os config_file of
        Inl e \<Rightarrow> True
      | Inr document \<Rightarrow>
          (case map_of document ''animation'' of
             None \<Rightarrow> True
           | Some section \<Rightarrow> section_incomplete section))"

text \<open>
  The specification's notion of a malformed configuration (its sections 4.1 and 6):
  missing keys or wrong field types. A configuration is well formed when it loads, has
  an \<open>animation\<close> table, and in it \<open>size\<close> is two integers, \<open>modes\<close> an integer of at
  least one, and \<open>frame_count\<close> a sequence of integers whose length is \<open>modes\<close>. It
  is malformed otherwise.
\<close>

fun is_int :: "toml \<Rightarrow> bool" where
  "is_int (TInt n) = True"
| "is_int v = False"

fun int_sequence :: "toml \<Rightarrow> nat option" where
  "int_sequence (TArray vs) = (if list_all is_int vs then Some (length vs) else None)"
| "int_sequence v = None"

fun mode_count :: "toml \<Rightarrow> int option" where
  "mode_count (TInt n) = Some n"
| "mode_count v = None"

definition section_well_formed :: "toml \<Rightarrow> bool" where
  "section_well_formed section =
     (case getitem section ''size'' of
        Inl e \<Rightarrow> False
      | Inr size_v \<Rightarrow>
          (case getitem section ''modes'' of
             Inl e \<Rightarrow> False
           | Inr modes_v \<Rightarrow>
               (case getitem section ''frame_count'' of
                  Inl e \<Rightarrow> False
                | Inr frames_v \<Rightarrow>
                    int_sequence size_v = Some 2 \<and>
                    (case mode_count modes_v of
                       None \<Rightarrow> False
                     | Some n \<Rightarrow>
                         1 \<le> n \<and> map_option int (int_sequence frames_v) = Some n))))"

definition config_malformed :: "platform \<Rightarrow> string \<Rightarrow> bool" where
  "config_malformed os config_file =
     (case toml_load os config_file of
        Inl e \<Rightarrow> True
      | Inr document \<Rightarrow>
          (case map_of document ''animation'' of
             None \<Rightarrow> True
           | Some section \<Rightarrow> \<not> section_well_formed section))"

subsection \<open>Concrete engines and platforms\<close>

definition registry :: "sprite_ref list \<Rightarrow> (sprite_ref \<Rightarrow> bool) \<Rightarrow> (unit, unit) engine" where
  "registry ss dead =
     \<lparr>keyboard = None, pressed_keys = {}, sprites = ss, assets = Map.empty,
      heap = (\<lambda>r. \<lparr>killed = dead r\<rparr>), calls = []\<rparr>"

definition still :: "unit sprite_update" where
  "still s peers h = h"

definition bound_engine :: "(unit, unit) engine" where
  "bound_engine =
     \<lparr>keyboard = Some \<lparr>on_key_down = [On_keyboard_down], on_key_up = [On_keyboard_up]\<rparr>,
      pressed_keys = {}, sprites = [], assets = Map.empty,
      heap = (\<lambda>r. \<lparr>killed = False\<rparr>), calls = []\<rparr>"

definition plain_config :: "(string \<times> texture \<times> toml \<times> toml \<times> toml) sprite_config" where
  "plain_config path tex size_v modes_v frames_v = Inr (path, tex, size_v, modes_v, frames_v)"

definition hero_unconfigured :: platform where
  "hero_unconfigured =
     \<lparr>listdir = (\<lambda>d. Inr [''hero.png'']),
      path_exists = (\<lambda>p. False),
      core_image = (\<lambda>p. Inr \<lparr>source = p, mag_filter = ''linear''\<rparr>),
      toml_load = (\<lambda>p. Inl OSError)\<rparr>"

definition hero_no_modes :: platform where
  "hero_no_modes =
     \<lparr>listdir = (\<lambda>d. Inr [''hero.png'']),
      path_exists = (\<lambda>p. True),
      core_image = (\<lambda>p. Inr \<lparr>source = p, mag_filter = ''linear''\<rparr>),
      toml_load = (\<lambda>p. Inr [(''animation'',
         TTable [(''size'', TArray [TInt 16, TInt 16]),
                 (''frame_count'', TArray [TInt 4, TInt 4])])])\<rparr>"


text \<open>
  A sheet whose configuration has all three keys, with a string where \<open>modes\<close>
  should be an integer.
\<close>

definition hero_modes_string :: platform where
  "hero_modes_string =
     \<lparr>listdir = (\<lambda>d. Inr [''hero.png'']),
      path_exists = (\<lambda>p. True),
      core_image = (\<lambda>p. Inr \<lparr>source = p, mag_filter = ''linear''\<rparr>),
      toml_load = (\<lambda>p. Inr [(''animation'',
         TTable [(''size'', TArray [TInt 16, TInt 16]),
                 (''modes'', TString ''two''),
                 (''frame_count'', TArray [TInt 4, TInt 4])])])\<rparr>"

section \<open>Keyboard handlers\<close>

text \<open>
  C1 (the claim: a key-up for a key that is not pressed leaves the pressed set unchanged
  and raises nothing). The handler does not behave so: on an engine with no key pressed,
  the key-up handler for the key \<open>(273, ''up'')\<close> raises \<open>KeyError\<close>, the exception of
  \<open>set.remove\<close>, and returns no state.
\<close>

theorem key_up_of_unpressed_key_raises:
  "priv_on_keyboard_up kb (273, ''up'') (registry [] (\<lambda>r. False)) = Inl KeyError"
  by (simp add: priv_on_keyboard_up_def registry_def)

text \<open>
  C6 (the claim: \<open>_keyboard_closed\<close> unbinds the key-down handler from the key-down
  event and the key-up handler from the key-up event, and clears the keyboard
  reference). On an engine whose keyboard has exactly the two bindings of \<open>__init__\<close>,
  the call clears the reference and the key-down binding, and the key-up handler is
  still bound to the key-up event afterwards: the second \<open>unbind\<close> names the key-down
  handler.
\<close>

theorem keyboard_closed_keeps_key_up_bound:
  "priv_keyboard_closed bound_engine =
     Inr (\<lparr>on_key_down = [], on_key_up = [On_keyboard_up]\<rparr>, bound_engine\<lparr>keyboard := None\<rparr>)"
  by (simp add: priv_keyboard_closed_def bound_engine_def unbind_on_key_down_def
      unbind_on_key_up_def)

text \<open>
  C7: for every key code, after the key-down handler the key is in the pressed set, and
  a key-up handler call for the same key code that follows raises nothing and leaves
  the key out of the pressed set. The key stored is the second component of the key
  code, as in the source.
\<close>

theorem press_release_round_trip:
  "snd key_code \<in> pressed_keys (priv_on_keyboard_down kb key_code txt modifiers self) \<and>
   (case priv_on_keyboard_up kb key_code (priv_on_keyboard_down kb key_code txt modifiers self) of
      Inl e \<Rightarrow> False
    | Inr released \<Rightarrow> snd key_code \<notin> pressed_keys released)"
  by (simp add: priv_on_keyboard_down_def priv_on_keyboard_up_def)

section \<open>The loops over the registry\<close>

declare update_loop.simps [simp del] update_rounds.simps [simp del] animate_loop.simps [simp del]

lemma calls_update_body:
  "calls (update_body upd i self) = calls self @ [round_call (i, self)]"
  by (simp add: update_body_def round_call_def Let_def)

lemma calls_update_loop:
  "calls (update_loop upd i self) = calls self @ map round_call (update_rounds upd i self)"
proof (induction upd i self rule: update_loop.induct)
  case (1 upd i self)
  show ?case
  proof (cases "i < length (sprites self)")
    case True
    then show ?thesis
      using "1.IH" [OF True]
      by (subst update_loop.simps, subst update_rounds.simps) (simp add: calls_update_body)
  next
    case False
    then show ?thesis
      by (subst update_loop.simps, subst update_rounds.simps) simp
  qed
qed


lemma priv_update_default:
  "priv_update upd update dt self =
     (update_loop upd 0 self)\<lparr>calls := calls (update_loop upd 0 self) @ [UserUpdate dt]\<rparr>"
  by (simp add: priv_update_def update_def Let_def)

lemma new_calls_priv_update:
  "new_calls self (priv_update upd update dt self) =
     map round_call (update_rounds upd 0 self) @ [UserUpdate dt]"
  by (simp add: new_calls_def priv_update_default calls_update_loop)


lemma update_loop_from_round:
  "(j, c) \<in> set (update_rounds upd i self) \<Longrightarrow> update_loop upd i self = update_loop upd j c"
proof (induction upd i self rule: update_rounds.induct)
  case (1 upd i self)
  show ?case
  proof (cases "i < length (sprites self)")
    case True
    with "1.prems"
    have "(j, c) = (i, self) \<or> (j, c) \<in> set (update_rounds upd (Suc i) (update_body upd i self))"
      by (subst (asm) update_rounds.simps) simp
    then show ?thesis
    proof
      assume "(j, c) = (i, self)"
      then show ?thesis by simp
    next
      assume "(j, c) \<in> set (update_rounds upd (Suc i) (update_body upd i self))"
      from "1.IH" [OF True this] show ?thesis
        using True by (subst update_loop.simps) simp
    qed
  next
    case False
    with "1.prems" show ?thesis by (subst (asm) update_rounds.simps) simp
  qed
qed

lemma animate_loop_effect:
  "animate_loop cyc i self =
     self\<lparr>heap := fold cyc (drop i (sprites self)) (heap self),
          calls := calls self @ map CycleAnimation (drop i (sprites self))\<rparr>"
proof (induction cyc i self rule: animate_loop.induct)
  case (1 cyc i self)
  show ?case
  proof (cases "i < length (sprites self)")
    case True
    have d: "drop i (sprites self) = sprites self ! i # drop (Suc i) (sprites self)"
      using True by (simp add: Cons_nth_drop_Suc)
    show ?thesis
      using "1.IH" [OF True] True
      by (subst animate_loop.simps) (simp add: d animate_body_def Let_def)
  next
    case False
    then show ?thesis by (subst animate_loop.simps) simp
  qed
qed

lemma count_list_map_call:
  "count_list (map CycleAnimation xs) (CycleAnimation s) = count_list xs s"
  by (induction xs) simp_all

lemma remove1_nth_distinct:
  "distinct xs \<Longrightarrow> i < length xs \<Longrightarrow> remove1 (xs ! i) xs = take i xs @ drop (Suc i) xs"
proof (induction xs arbitrary: i)
  case Nil
  then show ?case by simp
next
  case (Cons x xs)
  show ?case
  proof (cases i)
    case 0
    then show ?thesis by simp
  next
    case (Suc k)
    with Cons.prems have "k < length xs" "xs ! k \<in> set xs" "x \<notin> set xs" "distinct xs"
      by auto
    then have "x \<noteq> xs ! k" by auto
    with Cons.IH [OF \<open>distinct xs\<close> \<open>k < length xs\<close>] Suc show ?thesis by simp
  qed
qed

lemma nth_notin_drop_Suc:
  "distinct xs \<Longrightarrow> i < length xs \<Longrightarrow> xs ! i \<notin> set (drop (Suc i) xs)"
proof
  assume d: "distinct xs" and i: "i < length xs" and m: "xs ! i \<in> set (drop (Suc i) xs)"
  from m obtain k where k: "k < length (drop (Suc i) xs)" "drop (Suc i) xs ! k = xs ! i"
    by (auto simp: in_set_conv_nth)
  then have "Suc i + k < length xs" "xs ! (Suc i + k) = xs ! i" by auto
  with d i have "Suc i + k = i" by (simp add: nth_eq_iff_index_eq)
  then show False by simp
qed

lemma sprites_update_body:
  "distinct (sprites self) \<Longrightarrow> i < length (sprites self) \<Longrightarrow>
   sprites (update_body upd i self) =
     (if killed (heap self (sprites self ! i))
      then take i (sprites self) @ drop (Suc i) (sprites self) else sprites self)"
  by (simp add: update_body_def Let_def remove1_nth_distinct)

lemma distinct_update_body:
  "distinct (sprites self) \<Longrightarrow> distinct (sprites (update_body upd i self))"
  by (simp add: update_body_def Let_def)

lemma drop_update_body:
  assumes "distinct (sprites self)" "i < length (sprites self)"
  shows "set (drop (Suc i) (sprites (update_body upd i self))) \<subseteq> set (drop (Suc i) (sprites self))"
proof (cases "killed (heap self (sprites self ! i))")
  case True
  have "drop (Suc i) (take i (sprites self) @ drop (Suc i) (sprites self))
        = drop (Suc (Suc i)) (sprites self)"
    using assms(2) by simp
  moreover have "set (drop (Suc (Suc i)) (sprites self)) \<subseteq> set (drop (Suc i) (sprites self))"
    by (rule set_drop_subset_set_drop) simp
  ultimately show ?thesis
    using True assms by (simp add: sprites_update_body)
next
  case False
  then show ?thesis using assms by (simp add: sprites_update_body)
qed

lemma round_in_range:
  "(j, c) \<in> set (update_rounds upd i self) \<Longrightarrow> j < length (sprites c)"
proof (induction upd i self rule: update_rounds.induct)
  case (1 upd i self)
  show ?case
  proof (cases "i < length (sprites self)")
    case True
    with "1.prems" have "(j, c) = (i, self) \<or> (j, c) \<in> set (update_rounds upd (Suc i) (update_body upd i self))"
      by (subst (asm) update_rounds.simps) simp
    then show ?thesis using "1.IH" [OF True] True by auto
  next
    case False
    with "1.prems" show ?thesis by (subst (asm) update_rounds.simps) simp
  qed
qed

lemma round_drop_subset:
  "distinct (sprites self) \<Longrightarrow> (j, c) \<in> set (update_rounds upd i self) \<Longrightarrow>
   set (drop j (sprites c)) \<subseteq> set (drop i (sprites self)) \<and> distinct (sprites c)"
proof (induction upd i self rule: update_rounds.induct)
  case (1 upd i self)
  show ?case
  proof (cases "i < length (sprites self)")
    case True
    with "1.prems" have "(j, c) = (i, self) \<or> (j, c) \<in> set (update_rounds upd (Suc i) (update_body upd i self))"
      by (subst (asm) update_rounds.simps) simp
    then show ?thesis
    proof
      assume "(j, c) = (i, self)"
      with "1.prems" show ?thesis by simp
    next
      assume m: "(j, c) \<in> set (update_rounds upd (Suc i) (update_body upd i self))"
      have d: "distinct (sprites (update_body upd i self))"
        using "1.prems"(1) by (rule distinct_update_body)
      from "1.IH" [OF True d m]
      have "set (drop j (sprites c)) \<subseteq> set (drop (Suc i) (sprites (update_body upd i self)))"
        and dc: "distinct (sprites c)" by simp_all
      moreover have "set (drop (Suc i) (sprites (update_body upd i self))) \<subseteq> set (drop (Suc i) (sprites self))"
        using "1.prems"(1) True by (rule drop_update_body)
      moreover have "set (drop (Suc i) (sprites self)) \<subseteq> set (drop i (sprites self))"
        by (rule set_drop_subset_set_drop) simp
      ultimately show ?thesis by blast
    qed
  next
    case False
    with "1.prems" show ?thesis by (subst (asm) update_rounds.simps) simp
  qed
qed

lemma rounds_split:
  "distinct (sprites self) \<Longrightarrow> (j, c) \<in> set (update_rounds upd i self) \<Longrightarrow>
   \<exists>before. update_rounds upd i self = before @ update_rounds upd j c \<and>
     (\<forall>r \<in> set before. sprites (snd r) ! fst r \<notin> set (drop j (sprites c)))"
proof (induction upd i self rule: update_rounds.induct)
  case (1 upd i self)
  show ?case
  proof (cases "i < length (sprites self)")
    case True
    with "1.prems" have "(j, c) = (i, self) \<or> (j, c) \<in> set (update_rounds upd (Suc i) (update_body upd i self))"
      by (subst (asm) update_rounds.simps) simp
    then show ?thesis
    proof
      assume "(j, c) = (i, self)"
      then have "update_rounds upd i self = [] @ update_rounds upd j c" by simp
      then show ?thesis by fastforce
    next
      assume m: "(j, c) \<in> set (update_rounds upd (Suc i) (update_body upd i self))"
      have d: "distinct (sprites (update_body upd i self))"
        using "1.prems"(1) by (rule distinct_update_body)
      from "1.IH" [OF True d m] obtain before where
        b: "update_rounds upd (Suc i) (update_body upd i self) = before @ update_rounds upd j c"
        and nb: "\<forall>r \<in> set before. sprites (snd r) ! fst r \<notin> set (drop j (sprites c))"
        by blast
      have "set (drop j (sprites c)) \<subseteq> set (drop (Suc i) (sprites (update_body upd i self)))"
        using round_drop_subset [OF d m] by simp
      moreover have "set (drop (Suc i) (sprites (update_body upd i self))) \<subseteq> set (drop (Suc i) (sprites self))"
        using "1.prems"(1) True by (rule drop_update_body)
      moreover have "sprites self ! i \<notin> set (drop (Suc i) (sprites self))"
        using "1.prems"(1) True by (rule nth_notin_drop_Suc)
      ultimately have h: "sprites self ! i \<notin> set (drop j (sprites c))" by blast
      have "update_rounds upd i self = ((i, self) # before) @ update_rounds upd j c"
        using True b by (subst update_rounds.simps) simp
      moreover have "\<forall>r \<in> set ((i, self) # before). sprites (snd r) ! fst r \<notin> set (drop j (sprites c))"
        using h nb by simp
      ultimately show ?thesis by blast
    qed
  next
    case False
    with "1.prems" show ?thesis by (subst (asm) update_rounds.simps) simp
  qed
qed

lemma round_call_subject:
  "round_call r = SpriteUpdate s p \<or> round_call r = RemoveWidget s \<Longrightarrow> sprites (snd r) ! fst r = s"
  by (auto simp: round_call_def Let_def split: if_splits)

lemma prefix_update_loop:
  "distinct (sprites self) \<Longrightarrow> take i (sprites (update_loop upd i self)) = take i (sprites self)"
proof (induction upd i self rule: update_loop.induct)
  case (1 upd i self)
  show ?case
  proof (cases "i < length (sprites self)")
    case True
    have d: "distinct (sprites (update_body upd i self))"
      using "1.prems" by (rule distinct_update_body)
    have "take i (sprites (update_loop upd (Suc i) (update_body upd i self)))
          = take i (take (Suc i) (sprites (update_loop upd (Suc i) (update_body upd i self))))"
      by (simp add: min_def)
    also have "\<dots> = take i (take (Suc i) (sprites (update_body upd i self)))"
      using "1.IH" [OF True d] by simp
    also have "\<dots> = take i (sprites (update_body upd i self))"
      by (simp add: min_def)
    also have "\<dots> = take i (sprites self)"
      using "1.prems" True by (simp add: sprites_update_body)
    finally show ?thesis using True by (subst update_loop.simps) simp
  next
    case False
    then show ?thesis by (subst update_loop.simps) simp
  qed
qed

lemma skipped_sprite:
  assumes d: "distinct (sprites self)"
    and r: "(i, c) \<in> set (update_rounds upd 0 self)"
    and k: "killed (heap c (sprites c ! i))"
    and n: "Suc i < length (sprites c)"
  shows "i < length (sprites (update_loop upd 0 self))"
    and "sprites (update_loop upd 0 self) ! i = sprites c ! Suc i"
    and "\<forall>r \<in> set (update_rounds upd 0 self). sprites (snd r) ! fst r \<noteq> sprites c ! Suc i"
proof -
  let ?s = "sprites c ! Suc i"
  let ?b = "update_body upd i c"
  have dc: "distinct (sprites c)" using round_drop_subset [OF d r] by simp
  have i: "i < length (sprites c)" using n by simp
  have sb: "sprites ?b = take i (sprites c) @ drop (Suc i) (sprites c)"
    using dc i k by (simp add: sprites_update_body)
  have db: "distinct (sprites ?b)" using dc by (rule distinct_update_body)
  have fin: "update_loop upd 0 self = update_loop upd (Suc i) ?b"
    using update_loop_from_round [OF r] i by (subst (asm) (2) update_loop.simps) simp
  have t: "take (Suc i) (sprites (update_loop upd 0 self)) = take (Suc i) (sprites ?b)"
    using prefix_update_loop [OF db, of "Suc i" upd] fin by simp
  have lb: "Suc i \<le> length (sprites ?b)" using n sb by simp
  have "length (take (Suc i) (sprites (update_loop upd 0 self))) = Suc i"
    using t lb by simp
  then show il: "i < length (sprites (update_loop upd 0 self))" by simp
  have "sprites (update_loop upd 0 self) ! i = take (Suc i) (sprites (update_loop upd 0 self)) ! i"
    by simp
  also have "\<dots> = sprites ?b ! i" using t by simp
  also have "\<dots> = ?s" using n sb by (simp add: nth_append)
  finally show "sprites (update_loop upd 0 self) ! i = ?s" .
  from rounds_split [OF d r] obtain before where
    sp: "update_rounds upd 0 self = before @ update_rounds upd i c"
    and nb: "\<forall>r \<in> set before. sprites (snd r) ! fst r \<notin> set (drop i (sprites c))"
    by blast
  have ur: "update_rounds upd i c = (i, c) # update_rounds upd (Suc i) ?b"
    using i by (subst update_rounds.simps) simp
  have s_in: "?s \<in> set (drop i (sprites c))"
    using n by (auto simp: in_set_conv_nth intro!: exI [of _ 1])
  have s_ne: "sprites c ! i \<noteq> ?s"
    using dc n by (simp add: nth_eq_iff_index_eq)
  have s_out: "?s \<notin> set (drop (Suc i) (sprites ?b))"
  proof -
    have "drop (Suc i) (sprites ?b) = drop (Suc (Suc i)) (sprites c)"
      using i sb by simp
    then show ?thesis using nth_notin_drop_Suc [OF dc n] by simp
  qed
  show "\<forall>r \<in> set (update_rounds upd 0 self). sprites (snd r) ! fst r \<noteq> ?s"
  proof
    fix r assume "r \<in> set (update_rounds upd 0 self)"
    then consider "r \<in> set before" | "r = (i, c)" | "r \<in> set (update_rounds upd (Suc i) ?b)"
      using sp ur by auto
    then show "sprites (snd r) ! fst r \<noteq> ?s"
    proof cases
      case 1
      then show ?thesis using nb s_in by auto
    next
      case 2
      then show ?thesis using s_ne by simp
    next
      case 3
      obtain j c2 where jc: "r = (j, c2)" by (cases r)
      with 3 have m: "(j, c2) \<in> set (update_rounds upd (Suc i) ?b)" by simp
      have "j < length (sprites c2)" using round_in_range [OF m] .
      then have "sprites c2 ! j \<in> set (drop j (sprites c2))"
        by (auto simp: in_set_conv_nth intro!: exI [of _ 0])
      then have "sprites c2 ! j \<in> set (drop (Suc i) (sprites ?b))"
        using round_drop_subset [OF db m] by blast
      then show ?thesis using s_out jc by auto
    qed
  qed
qed

section \<open>Simulation tick and animation tick\<close>

text \<open>
  C2 (the claim: one pass of \<open>_update\<close> skips no sprite; on the registry
  \<open>[A, B, C]\<close> with only \<open>B\<close> killed the registry becomes \<open>[A, C]\<close> and both \<open>A\<close>
  and \<open>C\<close> get exactly one \<open>update\<close> call). With \<open>A = 0\<close>, \<open>B = 1\<close>, \<open>C = 2\<close> the
  registry does become \<open>[A, C]\<close>, and the calls of the tick are the update of \<open>A\<close>,
  the removal of \<open>B\<close> and the hook: \<open>C\<close> gets no \<open>update\<close> call.
\<close>

theorem sprite_after_removed_one_not_updated:
  "sprites (priv_update still update dt (registry [0, 1, 2] (\<lambda>r. r = 1))) = [0, 2] \<and>
   calls (priv_update still update dt (registry [0, 1, 2] (\<lambda>r. r = 1))) =
     [SpriteUpdate 0 [0, 1, 2], RemoveWidget 1, UserUpdate dt]"
  by (simp add: priv_update_default registry_def still_def update_body_def update_loop.simps)




text \<open>
  C9 as stated (for every sprite list, the sprite that shifts into the position of a
  removed sprite gets no \<open>update\<close> call and is not removed in that pass) fails when a
  sprite is in the registry twice. In \<open>[0, 1, 1]\<close> with sprite 0 killed, the first round
  removes sprite 0, sprite 1 shifts into position 0, and sprite 1 is updated in the next
  round. With sprite 1 killed as well, the next round removes it.
\<close>

theorem shifted_sprite_processed_when_listed_twice:
  "(0, registry [0, 1, 1] (\<lambda>r. r = 0)) \<in> set (update_rounds still 0 (registry [0, 1, 1] (\<lambda>r. r = 0))) \<and>
   killed (heap (registry [0, 1, 1] (\<lambda>r. r = 0)) (sprites (registry [0, 1, 1] (\<lambda>r. r = 0)) ! 0)) \<and>
   sprites (registry [0, 1, 1] (\<lambda>r. r = 0)) ! Suc 0 = 1 \<and>
   new_calls (registry [0, 1, 1] (\<lambda>r. r = 0))
       (priv_update still update 0 (registry [0, 1, 1] (\<lambda>r. r = 0)))
     = [RemoveWidget 0, SpriteUpdate 1 [1, 1], UserUpdate 0] \<and>
   (0, registry [0, 1, 1] (\<lambda>r. True)) \<in> set (update_rounds still 0 (registry [0, 1, 1] (\<lambda>r. True))) \<and>
   killed (heap (registry [0, 1, 1] (\<lambda>r. True)) (sprites (registry [0, 1, 1] (\<lambda>r. True)) ! 0)) \<and>
   sprites (registry [0, 1, 1] (\<lambda>r. True)) ! Suc 0 = 1 \<and>
   new_calls (registry [0, 1, 1] (\<lambda>r. True))
       (priv_update still update 0 (registry [0, 1, 1] (\<lambda>r. True)))
     = [RemoveWidget 0, RemoveWidget 1, UserUpdate 0]"
  by (simp add: new_calls_def priv_update_default registry_def still_def update_body_def
      update_loop.simps update_rounds.simps)

text \<open>
  C9, amended: in a registry that lists no sprite twice, whenever a round of the loop
  of \<open>_update\<close> removes the killed sprite at position \<open>i\<close> and a sprite follows it, that
  following sprite is at position \<open>i\<close> when the tick ends, and the tick made no
  \<open>update\<close> call on it and did not remove it, whatever its \<open>killed\<close> flag.
\<close>

theorem shifted_sprite_not_processed:
  assumes "distinct (sprites self)"
    and "(i, c) \<in> set (update_rounds upd 0 self)"
    and "killed (heap c (sprites c ! i))"
    and "Suc i < length (sprites c)"
  shows "i < length (sprites (priv_update upd update dt self)) \<and>
     sprites (priv_update upd update dt self) ! i = sprites c ! Suc i \<and>
     (\<forall>peers. SpriteUpdate (sprites c ! Suc i) peers
        \<notin> set (new_calls self (priv_update upd update dt self))) \<and>
     RemoveWidget (sprites c ! Suc i) \<notin> set (new_calls self (priv_update upd update dt self))"
proof -
  note s = skipped_sprite [OF assms]
  have n: "set (new_calls self (priv_update upd update dt self))
      = round_call ` set (update_rounds upd 0 self) \<union> {UserUpdate dt}"
    by (simp add: new_calls_priv_update)
  have u: "SpriteUpdate (sprites c ! Suc i) peers \<notin> round_call ` set (update_rounds upd 0 self)"
    for peers
  proof
    assume "SpriteUpdate (sprites c ! Suc i) peers \<in> round_call ` set (update_rounds upd 0 self)"
    then obtain r where r: "r \<in> set (update_rounds upd 0 self)"
      and e: "round_call r = SpriteUpdate (sprites c ! Suc i) peers" by auto
    from e have "sprites (snd r) ! fst r = sprites c ! Suc i"
      using round_call_subject [of r "sprites c ! Suc i" peers] by simp
    with s(3) r show False by blast
  qed
  have w: "RemoveWidget (sprites c ! Suc i) \<notin> round_call ` set (update_rounds upd 0 self)"
  proof
    assume "RemoveWidget (sprites c ! Suc i) \<in> round_call ` set (update_rounds upd 0 self)"
    then obtain r where r: "r \<in> set (update_rounds upd 0 self)"
      and e: "round_call r = RemoveWidget (sprites c ! Suc i)" by auto
    from e have "sprites (snd r) ! fst r = sprites c ! Suc i"
      using round_call_subject [of r "sprites c ! Suc i" "[]"] by simp
    with s(3) r show False by blast
  qed
  have "(\<forall>peers. SpriteUpdate (sprites c ! Suc i) peers
        \<notin> set (new_calls self (priv_update upd update dt self))) \<and>
     RemoveWidget (sprites c ! Suc i) \<notin> set (new_calls self (priv_update upd update dt self))"
    unfolding n using u w by simp
  moreover have "sprites (priv_update upd update dt self) = sprites (update_loop upd 0 self)"
    by (simp add: priv_update_default)
  ultimately show ?thesis using s(1,2) by simp
qed

theorem shifted_sprite_not_processed_witness:
  "distinct (sprites (registry [1, 2] (\<lambda>r. True))) \<and>
   (0, registry [1, 2] (\<lambda>r. True)) \<in> set (update_rounds still 0 (registry [1, 2] (\<lambda>r. True))) \<and>
   killed (heap (registry [1, 2] (\<lambda>r. True)) (sprites (registry [1, 2] (\<lambda>r. True)) ! 0)) \<and>
   Suc 0 < length (sprites (registry [1, 2] (\<lambda>r. True))) \<and>
   sprites (priv_update still update 0 (registry [1, 2] (\<lambda>r. True))) ! 0 = 2 \<and>
   (\<forall>peers. SpriteUpdate 2 peers
      \<notin> set (new_calls (registry [1, 2] (\<lambda>r. True))
               (priv_update still update 0 (registry [1, 2] (\<lambda>r. True))))) \<and>
   RemoveWidget 2
      \<notin> set (new_calls (registry [1, 2] (\<lambda>r. True))
               (priv_update still update 0 (registry [1, 2] (\<lambda>r. True))))"
proof -
  let ?e = "registry [1, 2] (\<lambda>r. True)"
  have d: "distinct (sprites ?e)" by (simp add: registry_def)
  have r: "(0, ?e) \<in> set (update_rounds still 0 ?e)"
    by (subst update_rounds.simps) (simp add: registry_def)
  have k: "killed (heap ?e (sprites ?e ! 0))" by (simp add: registry_def)
  have n: "Suc 0 < length (sprites ?e)" by (simp add: registry_def)
  have v: "sprites ?e ! Suc 0 = 2" by (simp add: registry_def)
  from shifted_sprite_not_processed [OF d r k n, of 0] d r k n show ?thesis
    unfolding v by blast
qed

text \<open>
  C10: an animation tick leaves the registry as it is and calls \<open>cycle_animation\<close>
  once for every entry of the registry, in registry order, whatever the \<open>killed\<close> flag
  of the sprite: the calls of the tick are the registry itself, so a sprite gets as
  many calls as it has entries; nothing but the sprites is changed.
\<close>

theorem animate_cycles_every_entry_in_order:
  "sprites (priv_animate cyc dt self) = sprites self \<and>
   new_calls self (priv_animate cyc dt self) = map CycleAnimation (sprites self) \<and>
   count_list (new_calls self (priv_animate cyc dt self)) (CycleAnimation s)
     = count_list (sprites self) s \<and>
   heap (priv_animate cyc dt self) = fold cyc (sprites self) (heap self) \<and>
   pressed_keys (priv_animate cyc dt self) = pressed_keys self \<and>
   keyboard (priv_animate cyc dt self) = keyboard self \<and>
   assets (priv_animate cyc dt self) = assets self"
  by (simp add: priv_animate_def animate_loop_effect new_calls_def count_list_map_call)

section \<open>Loading the sprite sheets\<close>

lemma sheet_config_incomplete:
  "config_incomplete os (config_file_of rd sp) \<Longrightarrow> \<exists>e. sheet_config os mk rd sp = Inl e"
  apply (cases "core_image os (sprites_path rd sp)")
   apply (simp add: sheet_config_def bind_result_def)
  apply (cases "toml_load os (config_file_of rd sp)")
   apply (simp add: sheet_config_def bind_result_def)
  subgoal for tex doc
    apply (cases "map_of doc ''animation''")
     apply (simp add: sheet_config_def bind_result_def config_incomplete_def)
    subgoal for sec
      apply (cases sec)
           apply (auto simp add: sheet_config_def bind_result_def config_incomplete_def split: option.splits)
      done
    done
  done

lemma load_loop_incomplete:
  "sp \<in> set sheets \<Longrightarrow> path_exists os (config_file_of rd sp) \<Longrightarrow>
   config_incomplete os (config_file_of rd sp) \<Longrightarrow>
   \<exists>e. fst (load_loop os mk rd sheets acc lg) = Inl e"
proof (induction sheets arbitrary: acc lg)
  case Nil
  then show ?case by simp
next
  case (Cons x xs)
  show ?case
  proof (cases "x = sp")
    case True
    from sheet_config_incomplete [OF Cons.prems(3)] obtain e where "sheet_config os mk rd sp = Inl e" ..
    with True Cons.prems(2) show ?thesis by simp
  next
    case False
    with Cons.prems have "sp \<in> set xs" by simp
    note ih = Cons.IH [OF this Cons.prems(2,3)]
    show ?thesis
    proof (cases "path_exists os (config_file_of rd x)")
      case True
      then show ?thesis using ih by (cases "sheet_config os mk rd x") simp_all
    next
      case False
      then show ?thesis using ih by simp
    qed
  qed
qed

lemma load_loop_keys:
  "fst (load_loop os mk rd sheets acc lg) = Inr catalog \<Longrightarrow>
   \<forall>k. acc k \<noteq> None \<longrightarrow> path_exists os (sprites_path rd (k @ ''_config.toml'')) \<Longrightarrow>
   catalog k \<noteq> None \<Longrightarrow> path_exists os (sprites_path rd (k @ ''_config.toml''))"
proof (induction sheets arbitrary: acc lg)
  case Nil
  then show ?case by simp
next
  case (Cons x xs)
  show ?case
  proof (cases "path_exists os (config_file_of rd x)")
    case False
    with Cons.prems(1) have "fst (load_loop os mk rd xs acc (lg @ [no_config_message x])) = Inr catalog"
      by simp
    from Cons.IH [OF this Cons.prems(2,3)] show ?thesis .
  next
    case True
    show ?thesis
    proof (cases "sheet_config os mk rd x")
      case (Inl e)
      with True Cons.prems(1) show ?thesis by simp
    next
      case (Inr config)
      with True Cons.prems(1)
      have r: "fst (load_loop os mk rd xs (acc(hd (rsplit1 CHR ''.'' x) \<mapsto> config)) lg) = Inr catalog"
        by simp
      have "\<forall>k. (acc(hd (rsplit1 CHR ''.'' x) \<mapsto> config)) k \<noteq> None \<longrightarrow>
               path_exists os (sprites_path rd (k @ ''_config.toml''))"
        using Cons.prems(2) True by (simp add: config_file_of_def)
      from Cons.IH [OF r this Cons.prems(3)] show ?thesis .
    qed
  qed
qed

lemma load_loop_no_key:
  assumes "fst (load_loop os mk rd sheets (Map.empty :: string \<rightharpoonup> 'a) lg) = Inr catalog"
    and "\<not> path_exists os (config_file_of rd sp)"
  shows "catalog (hd (rsplit1 CHR ''.'' sp)) = None"
proof (rule ccontr)
  assume "catalog (hd (rsplit1 CHR ''.'' sp)) \<noteq> None"
  moreover have "\<forall>k. (Map.empty :: string \<rightharpoonup> 'a) k \<noteq> None \<longrightarrow>
      path_exists os (sprites_path rd (k @ ''_config.toml''))"
    by simp
  ultimately
  have "path_exists os (sprites_path rd (hd (rsplit1 CHR ''.'' sp) @ ''_config.toml''))"
    using assms(1) load_loop_keys [of os mk rd sheets Map.empty lg catalog] by blast
  with assms(2) show False by (simp add: config_file_of_def)
qed

lemma section_incomplete_not_well_formed:
  "section_incomplete sec \<Longrightarrow> \<not> section_well_formed sec"
  by (cases sec) (auto simp: section_well_formed_def split: option.splits sum.splits)

lemma incomplete_is_malformed:
  "config_incomplete os config_file \<Longrightarrow> config_malformed os config_file"
  by (auto simp: config_incomplete_def config_malformed_def section_incomplete_not_well_formed
      split: sum.splits option.splits)

text \<open>
  C4 as stated (every present but malformed configuration fails the whole load) does
  not hold for a configuration that has the three keys and a value of the wrong type.
  \<open>load_sprite_sheets\<close> hands the values to \<open>SpriteConfig\<close> as it read them; with a
  \<open>SpriteConfig\<close> that stores what it is given, the sheet \<open>hero.png\<close> whose
  \<open>modes\<close> is the string \<open>two\<close> is loaded, and \<open>__init__\<close> returns an engine whose
  \<open>assets\<close> hold it.
\<close>

theorem wrong_type_config_is_loaded:
  "listdir hero_modes_string (''res'' @ ''/sprites'') = Inr [''hero.png''] \<and>
   last (rsplit1 CHR ''.'' ''hero.png'') \<in> set IMAGE_EXTENSIONS \<and>
   path_exists hero_modes_string (config_file_of ''res'' ''hero.png'') \<and>
   config_malformed hero_modes_string (config_file_of ''res'' ''hero.png'') \<and>
   fst (load_sprite_sheets hero_modes_string plain_config ''res'') =
     Inr [''hero'' \<mapsto>
       (''res/sprites/hero.png'',
        \<lparr>source = ''res/sprites/hero.png'', mag_filter = ''nearest''\<rparr>,
        TArray [TInt 16, TInt 16], TString ''two'', TArray [TInt 4, TInt 4])] \<and>
   map_sum id assets
     (Engine_init hero_modes_string plain_config ''res''
        \<lparr>on_key_down = [], on_key_up = []\<rparr> (\<lambda>r. \<lparr>killed = False\<rparr>)) =
     Inr [''hero'' \<mapsto>
       (''res/sprites/hero.png'',
        \<lparr>source = ''res/sprites/hero.png'', mag_filter = ''nearest''\<rparr>,
        TArray [TInt 16, TInt 16], TString ''two'', TArray [TInt 4, TInt 4])]"
  by (simp add: hero_modes_string_def load_sprite_sheets_def IMAGE_EXTENSIONS_def rsplit1_def
      sheet_config_def bind_result_def config_file_of_def sprites_path_def plain_config_def
      config_malformed_def section_well_formed_def Engine_init_def)

text \<open>
  C4, amended: when the directory lists an image whose configuration file exists and
  does not load as TOML, or has no \<open>animation\<close> table, or whose table lacks \<open>size\<close>,
  \<open>modes\<close> or \<open>frame_count\<close>, \<open>load_sprite_sheets\<close> raises, whatever the other
  sheets are and whatever \<open>SpriteConfig\<close> does, and \<open>__init__\<close> raises the same
  exception: no engine with a partial \<open>assets\<close> mapping comes out.
\<close>

theorem incomplete_config_fails_whole_load:
  assumes "listdir os (rd @ ''/sprites'') = Inr names"
    and "sp \<in> set names"
    and "last (rsplit1 CHR ''.'' sp) \<in> set IMAGE_EXTENSIONS"
    and "path_exists os (config_file_of rd sp)"
    and "config_incomplete os (config_file_of rd sp)"
  shows "\<exists>e. fst (load_sprite_sheets os mk rd) = Inl e \<and>
             Engine_init os mk rd window_keyboard objects = Inl e"
proof -
  let ?sheets = "filter (\<lambda>sp. last (rsplit1 CHR ''.'' sp) \<in> set IMAGE_EXTENSIONS) names"
  have "sp \<in> set ?sheets" using assms(2,3) by simp
  from load_loop_incomplete [OF this assms(4,5)]
  obtain e where "fst (load_loop os mk rd ?sheets Map.empty []) = Inl e" by blast
  then have "fst (load_sprite_sheets os mk rd) = Inl e"
    using assms(1) by (simp add: load_sprite_sheets_def)
  then show ?thesis by (simp add: Engine_init_def Let_def)
qed

theorem incomplete_config_fails_whole_load_witness:
  "listdir hero_no_modes (''res'' @ ''/sprites'') = Inr [''hero.png''] \<and>
   ''hero.png'' \<in> set [''hero.png''] \<and>
   last (rsplit1 CHR ''.'' ''hero.png'') \<in> set IMAGE_EXTENSIONS \<and>
   path_exists hero_no_modes (config_file_of ''res'' ''hero.png'') \<and>
   config_incomplete hero_no_modes (config_file_of ''res'' ''hero.png'') \<and>
   (\<exists>e. fst (load_sprite_sheets hero_no_modes plain_config ''res'') = Inl e \<and>
        Engine_init hero_no_modes plain_config ''res''
          \<lparr>on_key_down = [], on_key_up = []\<rparr> (\<lambda>r. \<lparr>killed = False\<rparr>) = Inl e)"
proof -
  have a: "listdir hero_no_modes (''res'' @ ''/sprites'') = Inr [''hero.png'']"
    by (simp add: hero_no_modes_def)
  have b: "''hero.png'' \<in> set [''hero.png'']" by simp
  have c: "last (rsplit1 CHR ''.'' ''hero.png'') \<in> set IMAGE_EXTENSIONS"
    by (simp add: rsplit1_def IMAGE_EXTENSIONS_def)
  have d: "path_exists hero_no_modes (config_file_of ''res'' ''hero.png'')"
    by (simp add: hero_no_modes_def)
  have e: "config_incomplete hero_no_modes (config_file_of ''res'' ''hero.png'')"
    by (simp add: config_incomplete_def hero_no_modes_def)
  from incomplete_config_fails_whole_load [OF a b c d e] a b c d e show ?thesis by blast
qed

text \<open>
  C5: an image whose configuration file does not exist is skipped without an
  exception: the loop goes on with the remaining sheets and the catalogue built so
  far, having logged one message; and whenever \<open>load_sprite_sheets\<close> returns a
  mapping, the mapping has no key for the base name of such an image.
\<close>

theorem missing_config_skips_sheet:
  assumes "\<not> path_exists os (config_file_of rd sp)"
  shows "load_loop os mk rd (sp # rest) catalog logged =
           load_loop os mk rd rest catalog (logged @ [no_config_message sp]) \<and>
         (\<forall>loaded. fst (load_sprite_sheets os mk rd) = Inr loaded \<longrightarrow>
            loaded (hd (rsplit1 CHR ''.'' sp)) = None)"
proof -
  have "loaded (hd (rsplit1 CHR ''.'' sp)) = None"
    if "fst (load_sprite_sheets os mk rd) = Inr loaded" for loaded
  proof (cases "listdir os (rd @ ''/sprites'')")
    case (Inl e)
    with that show ?thesis by (simp add: load_sprite_sheets_def)
  next
    case (Inr names)
    with that have "fst (load_loop os mk rd
        (filter (\<lambda>sp. last (rsplit1 CHR ''.'' sp) \<in> set IMAGE_EXTENSIONS) names) Map.empty [])
        = Inr loaded"
      by (simp add: load_sprite_sheets_def)
    then show ?thesis using assms by (rule load_loop_no_key)
  qed
  then show ?thesis using assms by simp
qed

theorem missing_config_skips_sheet_witness:
  "\<not> path_exists hero_unconfigured (config_file_of ''res'' ''hero.png'') \<and>
   load_sprite_sheets hero_unconfigured plain_config ''res''
     = (Inr Map.empty, [no_config_message ''hero.png'']) \<and>
   load_loop hero_unconfigured plain_config ''res'' [''hero.png''] Map.empty [] =
     load_loop hero_unconfigured plain_config ''res'' [] Map.empty
       ([] @ [no_config_message ''hero.png'']) \<and>
   (case fst (load_sprite_sheets hero_unconfigured plain_config ''res'') of
      Inl e \<Rightarrow> False
    | Inr loaded \<Rightarrow> loaded (hd (rsplit1 CHR ''.'' ''hero.png'')) = None)"
proof -
  have a: "\<not> path_exists hero_unconfigured (config_file_of ''res'' ''hero.png'')"
    by (simp add: hero_unconfigured_def)
  have b: "load_sprite_sheets hero_unconfigured plain_config ''res''
     = (Inr Map.empty, [no_config_message ''hero.png''])"
    by (simp add: load_sprite_sheets_def hero_unconfigured_def IMAGE_EXTENSIONS_def rsplit1_def)
  have c: "fst (load_sprite_sheets hero_unconfigured plain_config ''res'') = Inr Map.empty"
    using b by simp
  from missing_config_skips_sheet [OF a, of plain_config "[]" Map.empty "[]"]
  have "load_loop hero_unconfigured plain_config ''res'' [''hero.png''] Map.empty [] =
     load_loop hero_unconfigured plain_config ''res'' [] Map.empty
       ([] @ [no_config_message ''hero.png''])"
    and "Map.empty (hd (rsplit1 CHR ''.'' ''hero.png'')) = (None :: (string \<times> texture \<times> toml \<times> toml \<times> toml) option)"
    using c by blast+
  with a b c show ?thesis by simp
qed

end
